theory Spec2Isabelle
  imports Main
begin

section \<open>Python values and exceptions\<close>

text \<open>
  The values that the handlers of \<^verbatim>\<open>main.py\<close> produce: strings, booleans and
  dictionaries. A dictionary is an association list in insertion order, with
  unique keys. \<open>PObject c n\<close> stands for what Python's own implementation of
  the attribute \<open>n\<close> yields when it is called on an instance of the class
  \<open>c\<close>: for \<^verbatim>\<open>__str__\<close> the text \<^verbatim>\<open><__main__.c object at 0x...>\<close>. The model does
  not look into such a value.
\<close>

datatype pyval = PStr string | PBool bool | PDict "(string \<times> pyval) list" | PObject string string

text \<open>
  The built-in exceptions that running \<^verbatim>\<open>main.py\<close> can raise, in its own code or
  in Flask's \<^verbatim>\<open>add_url_rule\<close>. The source defines no exception class of its own.
\<close>

datatype error = IndexError | TypeError | AttributeError | AssertionError

fun exc_name :: "error \<Rightarrow> string" where
  "exc_name IndexError = ''IndexError''"
| "exc_name TypeError = ''TypeError''"
| "exc_name AttributeError = ''AttributeError''"
| "exc_name AssertionError = ''AssertionError''"

type_synonym 'a result = "error + 'a"

text \<open>The keyword arguments \<^verbatim>\<open>**uri_args\<close>: names bound to strings.\<close>

type_synonym kwargs = "(string \<times> string) list"

fun dict_setitem :: "(string \<times> pyval) list \<Rightarrow> string \<Rightarrow> pyval \<Rightarrow> (string \<times> pyval) list" where
  "dict_setitem [] k v = [(k, v)]"
| "dict_setitem ((k', v') # kvs) k v =
     (if k' = k then (k, v) # kvs else (k', v') # dict_setitem kvs k v)"

text \<open>\<^verbatim>\<open>result[k] = v\<close>: only a dictionary supports item assignment.\<close>

fun setitem :: "pyval \<Rightarrow> string \<Rightarrow> pyval \<Rightarrow> pyval result" where
  "setitem (PDict kvs) k v = Inr (PDict (dict_setitem kvs k v))"
| "setitem (PStr s) k v = Inl TypeError"
| "setitem (PBool b) k v = Inl TypeError"
| "setitem (PObject c n) k v = Inl TypeError"

section \<open>Classes and objects\<close>

text \<open>
  A class is a subclass of \<^verbatim>\<open>Handler\<close> or a subclass of \<^verbatim>\<open>Component\<close>, with the
  methods of its body. A method of a handler maps its keyword arguments to a
  result. A method of a component reaches the object it wraps through
  \<^verbatim>\<open>self.parent\<close> only: it is given the function that performs
  \<^verbatim>\<open>self.parent.name(**kwargs)\<close>.
\<close>

type_synonym invoker = "string \<Rightarrow> kwargs \<Rightarrow> pyval result"
type_synonym hmethod = "kwargs \<Rightarrow> pyval result"
type_synonym cmethod = "invoker \<Rightarrow> kwargs \<Rightarrow> pyval result"

datatype cls =
    HandlerClass string "(string \<times> hmethod) list"
  | ComponentClass string "(string \<times> cmethod) list"

text \<open>
  An instance: of a handler class, or of a component class together with the
  value of its attribute \<^verbatim>\<open>parent\<close>, which \<^verbatim>\<open>Component.__init__\<close> stores.
\<close>

datatype obj =
    HandlerObj string "(string \<times> hmethod) list"
  | ComponentObj string "(string \<times> cmethod) list" obj

text \<open>
  What an attribute access yields: a bound method, an object, or an attribute
  that the instance of the class \<open>c\<close> inherits from Python's \<^verbatim>\<open>object\<close>.
\<close>

datatype attr = Method hmethod | Object obj | Inherited string string

text \<open>Calling an attribute; an instance of these classes is not callable.\<close>

fun call_attr :: "attr \<Rightarrow> kwargs \<Rightarrow> pyval result" where
  "call_attr (Method m) kw = m kw"
| "call_attr (Object x) kw = Inl TypeError"
| "call_attr (Inherited c n) kw = Inr (PObject c n)"

text \<open>
  The names that an instance of any class of \<^verbatim>\<open>main.py\<close> has without a method of
  that name in a class body: the attributes of \<^verbatim>\<open>object\<close> and those that Python
  gives to every class and instance. Later versions of Python add names to
  this list; all of them have the form \<^verbatim>\<open>__x__\<close>.
\<close>

definition object_attrs :: "string list" where
  "object_attrs =
     [''__class__'', ''__delattr__'', ''__dict__'', ''__dir__'', ''__doc__'', ''__eq__'',
      ''__format__'', ''__ge__'', ''__getattribute__'', ''__gt__'', ''__hash__'',
      ''__init__'', ''__init_subclass__'', ''__le__'', ''__lt__'', ''__module__'',
      ''__ne__'', ''__new__'', ''__reduce__'', ''__reduce_ex__'', ''__repr__'',
      ''__setattr__'', ''__sizeof__'', ''__str__'', ''__subclasshook__'', ''__weakref__'']"

text \<open>
  \<^verbatim>\<open>getattr(x, name)\<close>. Python looks at the instance and its class first: on a
  component the instance attribute \<^verbatim>\<open>parent\<close>, then the methods of the class
  body, then what the class inherits, \<^verbatim>\<open>__getattr__\<close> from \<^verbatim>\<open>Component\<close> and
  the attributes of \<^verbatim>\<open>object\<close>. Only when all of these fail does Python call
  \<^verbatim>\<open>Component.__getattr__\<close>, which is \<^verbatim>\<open>getattr(self.parent, name)\<close>; a handler has
  no \<^verbatim>\<open>__getattr__\<close> and the access raises AttributeError.
\<close>

fun getattr :: "obj \<Rightarrow> string \<Rightarrow> attr result"
  and Component_getattr :: "obj \<Rightarrow> string \<Rightarrow> attr result" where
  "getattr (HandlerObj c ms) name =
     (case map_of ms name of
        Some m \<Rightarrow> Inr (Method m)
      | None \<Rightarrow>
          if name \<in> set object_attrs then Inr (Inherited c name)
          else Inl AttributeError)"
| "getattr (ComponentObj c ms parent) name =
     (if name = ''parent'' then Inr (Object parent)
      else case map_of ms name of
        Some m \<Rightarrow>
          Inr (Method (m (\<lambda>n kw. case getattr parent n of
                                   Inl e \<Rightarrow> Inl e
                                 | Inr a \<Rightarrow> call_attr a kw)))
      | None \<Rightarrow>
          if name \<in> set (''__getattr__'' # object_attrs) then Inr (Inherited c name)
          else Component_getattr parent name)"
| "Component_getattr parent name = getattr parent name"

text \<open>\<^verbatim>\<open>x.name(**kwargs)\<close>\<close>

definition call_method :: "obj \<Rightarrow> string \<Rightarrow> kwargs \<Rightarrow> pyval result" where
  "call_method x name kw =
     (case getattr x name of Inl e \<Rightarrow> Inl e | Inr a \<Rightarrow> call_attr a kw)"

text \<open>
  \<^verbatim>\<open>handler()\<close>: a handler class takes no argument; \<^verbatim>\<open>Component.__init__\<close> needs
  \<^verbatim>\<open>parent\<close>, so calling a component class with no argument raises TypeError.
\<close>

fun instantiate0 :: "cls \<Rightarrow> obj result" where
  "instantiate0 (HandlerClass c ms) = Inr (HandlerObj c ms)"
| "instantiate0 (ComponentClass c ms) = Inl TypeError"

text \<open>
  \<^verbatim>\<open>decorator(handler)\<close>: \<^verbatim>\<open>Component.__init__\<close> stores the argument as \<^verbatim>\<open>parent\<close>; a
  handler class takes no argument and raises TypeError.
\<close>

fun instantiate1 :: "cls \<Rightarrow> obj \<Rightarrow> obj result" where
  "instantiate1 (ComponentClass c ms) parent = Inr (ComponentObj c ms parent)"
| "instantiate1 (HandlerClass c ms) parent = Inl TypeError"

text \<open>The two base classes of the source; neither has a method of its own.\<close>

definition Component :: cls where
  "Component = ComponentClass ''Component'' []"

definition Handler :: cls where
  "Handler = HandlerClass ''Handler'' []"

section \<open>The program state\<close>

text \<open>
  A controller receives the handler and the keyword arguments; it may print
  values and it returns a result or raises.
\<close>

type_synonym controller_fn = "obj \<Rightarrow> kwargs \<Rightarrow> pyval list \<times> pyval result"

type_synonym addr = nat

text \<open>
  \<^verbatim>\<open>functools.partial(dispatch_request, fn=..., decorators=...)\<close>: the function
  and the list object that the closure holds.
\<close>

record partial_dispatch =
  partial_fn :: controller_fn
  partial_decorators :: addr

text \<open>One call of \<^verbatim>\<open>app.add_url_rule(path, name, handler, methods=[method])\<close>.\<close>

record rule =
  rule_path :: string
  rule_name :: "string option"
  rule_view :: partial_dispatch
  rule_methods :: "string list"

text \<open>
  Lists of classes are mutable objects: the store \<open>heap\<close> maps the address of a
  list object to its elements, and the addresses below \<open>next_addr\<close> are the ones
  in use. \<open>rules\<close> is the routing table of the global \<^verbatim>\<open>app\<close>, in order of
  registration; \<open>stdout\<close> holds the values printed so far.
\<close>

record state =
  heap :: "addr \<Rightarrow> cls list"
  next_addr :: addr
  rules :: "rule list"
  stdout :: "pyval list"

text \<open>A list display \<^verbatim>\<open>[x, ...]\<close> creates a new list object.\<close>

definition new_list :: "cls list \<Rightarrow> state \<Rightarrow> addr \<times> state" where
  "new_list xs st =
     (next_addr st, st\<lparr>heap := (heap st)(next_addr st := xs), next_addr := Suc (next_addr st)\<rparr>)"

text \<open>\<^verbatim>\<open>a + b\<close> on lists creates a new list object and leaves both operands alone.\<close>

definition list_add :: "addr \<Rightarrow> addr \<Rightarrow> state \<Rightarrow> addr \<times> state" where
  "list_add a b st = new_list (heap st a @ heap st b) st"

text \<open>\<^verbatim>\<open>components or []\<close>: \<^verbatim>\<open>None\<close> and the empty list are both false.\<close>

definition or_empty :: "addr option \<Rightarrow> state \<Rightarrow> addr \<times> state" where
  "or_empty components st =
     (case components of
        None \<Rightarrow> new_list [] st
      | Some a \<Rightarrow> if heap st a = [] then new_list [] st else (a, st))"

text \<open>\<^verbatim>\<open>decorators.pop()\<close> removes and returns the last element, in place.\<close>

definition list_pop :: "addr \<Rightarrow> state \<Rightarrow> cls result \<times> state" where
  "list_pop a st =
     (if heap st a = [] then (Inl IndexError, st)
      else (Inr (last (heap st a)), st\<lparr>heap := (heap st)(a := butlast (heap st a))\<rparr>))"

section \<open>dispatch_request\<close>

text \<open>
  The loop \<^verbatim>\<open>while decorators: decorator = decorators.pop(); handler = decorator(handler)\<close>.
\<close>

function while_decorators :: "addr \<Rightarrow> obj \<Rightarrow> state \<Rightarrow> obj result \<times> state" where
  "while_decorators decorators handler st =
     (if heap st decorators = [] then (Inr handler, st)
      else
        (case list_pop decorators st of
           (Inl e, st1) \<Rightarrow> (Inl e, st1)
         | (Inr decorator, st1) \<Rightarrow>
             (case instantiate1 decorator handler of
                Inl e \<Rightarrow> (Inl e, st1)
              | Inr handler' \<Rightarrow> while_decorators decorators handler' st1)))"
  by pat_completeness auto
termination
  by (relation "measure (\<lambda>(decorators, handler, st). length (heap st decorators))")
     (auto simp: list_pop_def split: if_splits)

declare while_decorators.simps [simp del]

text \<open>
  \<^verbatim>\<open>dispatch_request(fn, decorators, **uri_args)\<close>. What the controller prints
  goes to \<open>stdout\<close>.
\<close>

definition dispatch_request :: "controller_fn \<Rightarrow> addr \<Rightarrow> kwargs \<Rightarrow> state \<Rightarrow> pyval result \<times> state" where
  "dispatch_request fn decorators uri_args st =
     (case list_pop decorators st of
        (Inl e, st1) \<Rightarrow> (Inl e, st1)
      | (Inr handler_cls, st1) \<Rightarrow>
          (case instantiate0 handler_cls of
             Inl e \<Rightarrow> (Inl e, st1)
           | Inr handler \<Rightarrow>
               (case while_decorators decorators handler st1 of
                  (Inl e, st2) \<Rightarrow> (Inl e, st2)
                | (Inr handler', st2) \<Rightarrow>
                    (case fn handler' uri_args of
                       (out, r) \<Rightarrow> (r, st2\<lparr>stdout := stdout st2 @ out\<rparr>)))))"


section \<open>Routes\<close>

text \<open>
  \<^verbatim>\<open>Route\<close> and \<^verbatim>\<open>Include\<close> objects. No code assigns to their attributes after
  \<^verbatim>\<open>__init__\<close>, so they are values; their \<^verbatim>\<open>components\<close> attribute is a reference
  to a list object of the store. \<^verbatim>\<open>Include.routes\<close> has the type
  \<^verbatim>\<open>Optional[List[RouteLike]]\<close> and is stored as it is given.
\<close>

datatype routelike =
    Route (route_path: string) (route_controller: controller_fn) (route_handler: cls)
          (route_method: string) (route_name: string) (route_components: addr)
  | Include (include_prefix: string) (include_routes: "routelike list option")
            (include_components: addr) (include_namespace: string)

text \<open>\<^verbatim>\<open>Route.__init__\<close>; the defaults are \<^verbatim>\<open>method='GET'\<close>, \<^verbatim>\<open>name=''\<close>, \<^verbatim>\<open>components=None\<close>.\<close>

definition Route_init ::
  "string \<Rightarrow> controller_fn \<Rightarrow> cls \<Rightarrow> string \<Rightarrow> string \<Rightarrow> addr option \<Rightarrow> state \<Rightarrow> routelike \<times> state" where
  "Route_init path controller handler method name components st =
     (case or_empty components st of
        (c, st1) \<Rightarrow> (Route path controller handler method name c, st1))"

text \<open>\<^verbatim>\<open>Include.__init__\<close>; the defaults are \<^verbatim>\<open>components=None\<close>, \<^verbatim>\<open>namespace=''\<close>.\<close>

definition Include_init ::
  "string \<Rightarrow> routelike list option \<Rightarrow> addr option \<Rightarrow> string \<Rightarrow> state \<Rightarrow> routelike \<times> state" where
  "Include_init prefix rs components namespace st =
     (case or_empty components st of
        (c, st1) \<Rightarrow> (Include prefix rs c namespace, st1))"

text \<open>\<^verbatim>\<open>s or None\<close> on a string.\<close>

definition or_None :: "string \<Rightarrow> string option" where
  "or_None s = (if s = [] then None else Some s)"

text \<open>
  \<^verbatim>\<open>app.add_url_rule\<close> belongs to Flask and is not in the source. What it does
  with a call is a parameter of the registration: a table \<open>tbl\<close> looks at the
  rules registered so far and at the new rule, and either accepts the rule or
  names the exception that \<^verbatim>\<open>add_url_rule\<close> raises. \<open>rules\<close> holds the rules whose
  call has returned.
\<close>

type_synonym table = "rule list \<Rightarrow> rule \<Rightarrow> error option"

definition add_url_rule ::
  "table \<Rightarrow> string \<Rightarrow> string option \<Rightarrow> partial_dispatch \<Rightarrow> string list \<Rightarrow> state \<Rightarrow> error option \<times> state" where
  "add_url_rule tbl path name handler methods st =
     (let r = \<lparr>rule_path = path, rule_name = name, rule_view = handler, rule_methods = methods\<rparr>
      in case tbl (rules st) r of
           Some e \<Rightarrow> (Some e, st)
         | None \<Rightarrow> (None, st\<lparr>rules := rules st @ [r]\<rparr>))"

text \<open>
  The table of Flask, as far as the names go. Without a name Flask takes the
  \<^verbatim>\<open>__name__\<close> of the view, and a \<^verbatim>\<open>functools.partial\<close> has none: AttributeError.
  With a name that is already bound to another view Flask raises
  AssertionError, and every call of \<open>add_route\<close> makes a new
  \<^verbatim>\<open>functools.partial\<close>. The other checks of Flask, such as the one on the syntax
  of the path, are left out.
\<close>

definition flask :: table where
  "flask rs r =
     (case rule_name r of
        None \<Rightarrow> Some AttributeError
      | Some endpoint \<Rightarrow>
          if Some endpoint \<in> set (map rule_name rs) then Some AssertionError else None)"

text \<open>
  \<^verbatim>\<open>Router.add_routes\<close> and \<^verbatim>\<open>Router.add_route\<close>. \<open>for_routes\<close> is the loop
  \<^verbatim>\<open>for route in routes\<close>; iterating over \<^verbatim>\<open>None\<close> raises TypeError. The result is
  the exception raised, if any, and the state reached: the rules added before an
  exception stay in the table. \<^verbatim>\<open>add_route\<close> writes to the global \<^verbatim>\<open>app\<close>, not to
  \<^verbatim>\<open>self.app\<close>; the script makes them the same object.
\<close>

fun add_routes :: "table \<Rightarrow> routelike list option \<Rightarrow> addr option \<Rightarrow> string \<Rightarrow> string \<Rightarrow> state \<Rightarrow> error option \<times> state"
  and for_routes :: "table \<Rightarrow> routelike list \<Rightarrow> addr \<Rightarrow> string \<Rightarrow> string \<Rightarrow> state \<Rightarrow> error option \<times> state"
  and add_route :: "table \<Rightarrow> routelike \<Rightarrow> addr \<Rightarrow> string \<Rightarrow> string \<Rightarrow> state \<Rightarrow> error option \<times> state" where
  "add_routes tbl None components prefix namespace st =
     (case or_empty components st of (c, st1) \<Rightarrow> (Some TypeError, st1))"
| "add_routes tbl (Some rs) components prefix namespace st =
     (case or_empty components st of (c, st1) \<Rightarrow> for_routes tbl rs c prefix namespace st1)"
| "for_routes tbl [] components prefix namespace st = (None, st)"
| "for_routes tbl (r # rs) components prefix namespace st =
     (case add_route tbl r components prefix namespace st of
        (Some e, st1) \<Rightarrow> (Some e, st1)
      | (None, st1) \<Rightarrow> for_routes tbl rs components prefix namespace st1)"
| "add_route tbl (Include iprefix rs icomponents inamespace) components prefix namespace st =
     (let namespace' = namespace @ inamespace;
          prefix' = prefix @ iprefix
      in case list_add components icomponents st of
           (components', st1) \<Rightarrow> add_routes tbl rs (Some components') prefix' namespace' st1)"
| "add_route tbl (Route rpath controller handler method rname rcomponents) components prefix namespace st =
     (let name = or_None (namespace @ rname);
          path = prefix @ rpath
      in case list_add components rcomponents st of
           (t1, st1) \<Rightarrow>
             (case new_list [handler] st1 of
                (t2, st2) \<Rightarrow>
                  (case list_add t1 t2 st2 of
                     (components', st3) \<Rightarrow>
                       add_url_rule tbl path name
                         \<lparr>partial_fn = controller, partial_decorators = components'\<rparr>
                         [method] st3)))"

text \<open>
  Calling the registered closure with the keyword arguments of a request, which
  are the variables of the path. A keyword of the call replaces a keyword that
  \<^verbatim>\<open>functools.partial\<close> has bound: with a variable named \<^verbatim>\<open>decorators\<close> the
  function pops from a string, which has no \<^verbatim>\<open>pop\<close> (AttributeError), and with a
  variable named \<^verbatim>\<open>fn\<close> it builds the chain and then calls a string (TypeError).
\<close>

definition call_partial :: "partial_dispatch \<Rightarrow> kwargs \<Rightarrow> state \<Rightarrow> pyval result \<times> state" where
  "call_partial p uri_args st =
     (if ''decorators'' \<in> set (map fst uri_args) then (Inl AttributeError, st)
      else if ''fn'' \<in> set (map fst uri_args) then
        dispatch_request (\<lambda>handler kw. ([], Inl TypeError)) (partial_decorators p)
          (filter (\<lambda>kv. fst kv \<noteq> ''fn'') uri_args) st
      else dispatch_request (partial_fn p) (partial_decorators p) uri_args st)"

section \<open>The example of the script\<close>

definition controller :: controller_fn where
  "controller handler uri_args =
     (case call_method handler ''test'' [] of
        Inl e \<Rightarrow> ([], Inl e)
      | Inr v \<Rightarrow> ([v], Inr (PStr ''hello, world!'')))"

definition JSONAPIHandler :: cls where
  "JSONAPIHandler =
     HandlerClass ''JSONAPIHandler''
       [(''test'', \<lambda>uri_args. Inr (PDict [(''hello'', PStr ''world'')]))]"

definition A :: cls where
  "A = ComponentClass ''A''
         [(''test'', \<lambda>parent uri_args.
             case parent ''test'' uri_args of
               Inl e \<Rightarrow> Inl e
             | Inr r \<Rightarrow> setitem r ''A'' (PBool True))]"

definition B :: cls where
  "B = ComponentClass ''B''
         [(''test'', \<lambda>parent uri_args.
             case parent ''test'' uri_args of
               Inl e \<Rightarrow> Inl e
             | Inr r \<Rightarrow> setitem r ''B'' (PBool True))]"

text \<open>\<^verbatim>\<open>JSONAPIRoute = functools.partial(Route, handler=JSONAPIHandler)\<close>\<close>

definition JSONAPIRoute ::
  "string \<Rightarrow> controller_fn \<Rightarrow> string \<Rightarrow> string \<Rightarrow> addr option \<Rightarrow> state \<Rightarrow> routelike \<times> state" where
  "JSONAPIRoute path c method name components st =
     Route_init path c JSONAPIHandler method name components st"

text \<open>The state in which the script starts: no list, no rule, nothing printed.\<close>

definition init_state :: state where
  "init_state = \<lparr>heap = (\<lambda>a. []), next_addr = 0, rules = [], stdout = []\<rparr>"

text \<open>
  The module-level list \<^verbatim>\<open>routes\<close>. Python evaluates the arguments from left to
  right: the list \<^verbatim>\<open>[B]\<close> is created before the list \<^verbatim>\<open>[A]\<close>.
\<close>

definition routes :: "state \<Rightarrow> routelike list \<times> state" where
  "routes st =
     (case new_list [B] st of
        (b, st1) \<Rightarrow>
          (case JSONAPIRoute ''/<id>'' controller ''GET'' ''test'' (Some b) st1 of
             (r, st2) \<Rightarrow>
               (case new_list [A] st2 of
                  (a, st3) \<Rightarrow>
                    (case Include_init ''/users'' (Some [r]) (Some a) [] st3 of
                       (i, st4) \<Rightarrow> ([i], st4)))))"

text \<open>\<^verbatim>\<open>api = Router(app); api.add_routes(routes)\<close>, on the application of Flask.\<close>

definition registered :: "error option \<times> state" where
  "registered = (case routes init_state of (rs, st) \<Rightarrow> add_routes flask (Some rs) None [] [] st)"

text \<open>
  \<^verbatim>\<open>client.get(url)\<close>. Matching a URL against the path templates is Flask's work:
  the request is given by the template that matches and the arguments taken from
  the URL, \<^verbatim>\<open>/users/<id>\<close> and \<^verbatim>\<open>id = '1'\<close> for \<^verbatim>\<open>/users/1\<close>. The view of the first
  rule with that template is called; without such a rule nothing is called.
\<close>

definition serve :: "string \<Rightarrow> kwargs \<Rightarrow> state \<Rightarrow> (pyval result \<times> state) option" where
  "serve template uri_args st =
     (case find (\<lambda>r. rule_path r = template) (rules st) of
        None \<Rightarrow> None
      | Some r \<Rightarrow> Some (call_partial (rule_view r) uri_args st))"

section \<open>Notions used in the statements\<close>

text \<open>
  The value of the expression \<^verbatim>\<open>D1(D2(...Dn(x)...))\<close> for the classes
  \<open>[D1, ..., Dn]\<close>, where \<open>r\<close> is the result of evaluating \<^verbatim>\<open>x\<close>: the innermost
  call is made first, and an exception ends the evaluation.
\<close>

fun nested_call :: "cls list \<Rightarrow> obj result \<Rightarrow> obj result" where
  "nested_call [] r = r"
| "nested_call (d # ds) r =
     (case nested_call ds r of Inl e \<Rightarrow> Inl e | Inr x \<Rightarrow> instantiate1 d x)"

fun is_component :: "cls \<Rightarrow> bool" where
  "is_component (ComponentClass c ms) = True"
| "is_component (HandlerClass c ms) = False"

text \<open>
  A component class overrides the operation \<open>op\<close> with the transformation \<open>f\<close>
  when its method \<open>op\<close> has the form of \<^verbatim>\<open>A.test\<close> and \<^verbatim>\<open>B.test\<close>: it calls
  \<^verbatim>\<open>self.parent.op(**kwargs)\<close> and applies \<open>f\<close> to the result. The name \<^verbatim>\<open>parent\<close>
  cannot be overridden: the instance attribute hides a method of that name.
\<close>

definition transforms :: "string \<Rightarrow> cls \<Rightarrow> (pyval \<Rightarrow> pyval result) \<Rightarrow> bool" where
  "transforms op d f \<longleftrightarrow>
     op \<noteq> ''parent'' \<and>
     (\<exists>c ms. d = ComponentClass c ms \<and>
        map_of ms op = Some (\<lambda>parent kw. case parent op kw of Inl e \<Rightarrow> Inl e | Inr r \<Rightarrow> f r))"

definition and_then :: "(pyval \<Rightarrow> pyval result) \<Rightarrow> pyval result \<Rightarrow> pyval result" where
  "and_then f r = (case r of Inl e \<Rightarrow> Inl e | Inr v \<Rightarrow> f v)"

text \<open>A class overrides a name when its body has a method of that name.\<close>

fun overrides :: "cls \<Rightarrow> string \<Rightarrow> bool" where
  "overrides (ComponentClass c ms) name = (map_of ms name \<noteq> None)"
| "overrides (HandlerClass c ms) name = (map_of ms name \<noteq> None)"

text \<open>The names of the form \<^verbatim>\<open>__x__\<close>, which Python reserves for its own use.\<close>

definition dunder :: "string \<Rightarrow> bool" where
  "dunder s \<longleftrightarrow> take 2 s = ''__'' \<and> take 2 (rev s) = ''__''"

text \<open>
  What a rule of the routing table binds: path, name, the elements of the list
  that its closure holds, and methods.
\<close>

type_synonym binding = "string \<times> string option \<times> cls list \<times> string list"

definition binding_of :: "state \<Rightarrow> rule \<Rightarrow> binding" where
  "binding_of st r =
     (rule_path r, rule_name r, heap st (partial_decorators (rule_view r)), rule_methods r)"

text \<open>The rules that were added between two states.\<close>

definition new_rules :: "state \<Rightarrow> state \<Rightarrow> rule list" where
  "new_rules st st' = drop (length (rules st)) (rules st')"

text \<open>
  The flattening as the specification words it, without a store: a group passes
  on the inherited decorators followed by its own, the prefix and the namespace
  extended by its own; a leaf yields one binding. \<open>H\<close> gives the elements of a
  list object.
\<close>

fun flatten_spec :: "(addr \<Rightarrow> cls list) \<Rightarrow> cls list \<Rightarrow> string \<Rightarrow> string \<Rightarrow> routelike \<Rightarrow> binding list" where
  "flatten_spec H ds p n (Route rp fn h m rn rc) = [(p @ rp, or_None (n @ rn), ds @ H rc @ [h], [m])]"
| "flatten_spec H ds p n (Include ip rs ic ins) =
     (case rs of
        None \<Rightarrow> []
      | Some xs \<Rightarrow> concat (map (flatten_spec H (ds @ H ic) (p @ ip) (n @ ins)) xs))"

text \<open>Every group of the tree has a list of children.\<close>

fun routes_present :: "routelike \<Rightarrow> bool" where
  "routes_present (Route rp fn h m rn rc) = True"
| "routes_present (Include ip rs ic ins) =
     (case rs of None \<Rightarrow> False | Some xs \<Rightarrow> list_all routes_present xs)"

text \<open>The list objects that the nodes of a tree refer to.\<close>

fun tree_addrs :: "routelike \<Rightarrow> addr list" where
  "tree_addrs (Route rp fn h m rn rc) = [rc]"
| "tree_addrs (Include ip rs ic ins) =
     ic # (case rs of None \<Rightarrow> [] | Some xs \<Rightarrow> concat (map tree_addrs xs))"

definition allocated :: "state \<Rightarrow> routelike \<Rightarrow> bool" where
  "allocated st r = list_all (\<lambda>a. a < next_addr st) (tree_addrs r)"

text \<open>
  The leaves of a tree in the order of the traversal, each with the groups on
  the way from the root, and the decorator list of the claim for such a leaf: the
  components of the groups, root first, the components of the leaf, the handler.
\<close>

fun leaf_paths :: "routelike \<Rightarrow> (routelike list \<times> routelike) list" where
  "leaf_paths (Route rp fn h m rn rc) = [([], Route rp fn h m rn rc)]"
| "leaf_paths (Include ip rs ic ins) =
     (case rs of
        None \<Rightarrow> []
      | Some xs \<Rightarrow> map (\<lambda>(anc, l). (Include ip rs ic ins # anc, l)) (concat (map leaf_paths xs)))"

definition chain_of :: "(addr \<Rightarrow> cls list) \<Rightarrow> routelike list \<times> routelike \<Rightarrow> cls list" where
  "chain_of H pl =
     concat (map (\<lambda>g. H (include_components g)) (fst pl)) @
     H (route_components (snd pl)) @ [route_handler (snd pl)]"

text \<open>
  \<open>extends tbl st st'\<close>: the state \<open>st'\<close> comes from \<open>st\<close> by creating list
  objects and adding rules that the table has accepted and whose closures hold
  lists created on the way; the lists of \<open>st\<close> and what was printed are as they
  were.
\<close>

definition extends :: "table \<Rightarrow> state \<Rightarrow> state \<Rightarrow> bool" where
  "extends tbl st st' \<longleftrightarrow>
     next_addr st \<le> next_addr st' \<and>
     (\<forall>a<next_addr st. heap st' a = heap st a) \<and>
     stdout st' = stdout st \<and>
     (\<exists>new. rules st' = rules st @ new \<and>
        (\<forall>r\<in>set new. next_addr st \<le> partial_decorators (rule_view r) \<and>
                      partial_decorators (rule_view r) < next_addr st' \<and>
                      (\<exists>rs. tbl rs r = None)))"


text \<open>
  \<open>registers res st bs\<close>: the rules that a registration with the result \<open>res\<close>
  has added to the table of \<open>st\<close> bind a beginning of the list \<open>bs\<close>, and all
  of it when the registration has raised nothing.
\<close>

definition registers :: "error option \<times> state \<Rightarrow> state \<Rightarrow> binding list \<Rightarrow> bool" where
  "registers res st bs \<longleftrightarrow>
     (\<exists>rest. bs = map (binding_of (snd res)) (new_rules st (snd res)) @ rest) \<and>
     (fst res = None \<longrightarrow> map (binding_of (snd res)) (new_rules st (snd res)) = bs)"

text \<open>
  Inputs on which the statements below are evaluated. \<open>list_state xs\<close> is the
  initial state after the list display \<open>xs\<close> has been evaluated: the new list
  object has the address 0.
\<close>

definition list_state :: "cls list \<Rightarrow> state" where
  "list_state xs = snd (new_list xs init_state)"

text \<open>
  A group \<^verbatim>\<open>G\<close> that holds a group \<^verbatim>\<open>H\<close> that holds a leaf \<^verbatim>\<open>L\<close>, with the component
  lists \<^verbatim>\<open>[A]\<close>, \<^verbatim>\<open>[B]\<close> and \<^verbatim>\<open>[Component]\<close> at the addresses 0, 1 and 2.
\<close>

definition nested_example :: "state \<times> routelike" where
  "nested_example =
     (snd (new_list [Component] (snd (new_list [B] (snd (new_list [A] init_state))))),
      Include ''/g'' (Some [Include ''/h''
         (Some [Route ''/<id>'' controller JSONAPIHandler ''GET'' ''test'' 2]) 1 []]) 0 [])"

text \<open>
  A single leaf with the components \<^verbatim>\<open>[B]\<close> at the address 1, to be registered
  under the inherited list \<^verbatim>\<open>[A]\<close> at the address 0.
\<close>

definition single_example :: "state \<times> routelike" where
  "single_example =
     (snd (new_list [B] (snd (new_list [A] init_state))),
      Route ''/<id>'' controller
        (HandlerClass ''JSONAPIHandler'' [(''test'', \<lambda>uri_args. Inr (PDict [(''hello'', PStr ''world'')]))])
        ''GET'' ''test'' 1)"

text \<open>
  The same leaf with a path whose variable is named \<^verbatim>\<open>decorators\<close>.
\<close>

definition variable_example :: "state \<times> routelike" where
  "variable_example =
     (snd (new_list [B] (snd (new_list [A] init_state))),
      Route ''/<decorators>'' controller JSONAPIHandler ''GET'' ''test'' 1)"

section \<open>The decorator chain\<close>

lemma list_state_heap: "heap (list_state xs) 0 = xs"
  by (simp add: list_state_def new_list_def init_state_def)

lemma nested_call_Inl: "nested_call ds (Inl e) = Inl e"
  by (induction ds) simp_all

lemma nested_call_append: "nested_call (xs @ ys) r = nested_call xs (nested_call ys r)"
  by (induction xs) simp_all

lemma nested_call_snoc: "nested_call (xs @ [d]) (Inr x) = nested_call xs (instantiate1 d x)"
  by (simp add: nested_call_append split: sum.splits)

lemma while_decorators_result:
  "fst (while_decorators a h st) = nested_call (heap st a) (Inr h)"
proof (induction a h st rule: while_decorators.induct)
  case (1 a h st)
  show ?case
  proof (cases "heap st a = []")
    case True
    then show ?thesis by (simp add: while_decorators.simps)
  next
    case False
    then obtain xs d where xs: "heap st a = xs @ [d]"
      by (metis append_butlast_last_id)
    let ?st1 = "st\<lparr>heap := (heap st)(a := xs)\<rparr>"
    have pop: "list_pop a st = (Inr d, ?st1)"
      using xs by (simp add: list_pop_def)
    show ?thesis
    proof (cases "instantiate1 d h")
      case (Inl e)
      with xs pop show ?thesis
        by (simp add: while_decorators.simps [of a h st] nested_call_snoc nested_call_Inl)
    next
      case (Inr h')
      have "fst (while_decorators a h' ?st1) = nested_call (heap ?st1 a) (Inr h')"
        using "1.IH" [OF False pop [symmetric] refl Inr] .
      with xs pop Inr show ?thesis
        by (simp add: while_decorators.simps [of a h st] nested_call_snoc)
    qed
  qed
qed

lemma while_decorators_state:
  "while_decorators a h st = (Inr h', st') \<Longrightarrow> st' = st\<lparr>heap := (heap st)(a := [])\<rparr>"
proof (induction a h st rule: while_decorators.induct)
  case (1 a h st)
  show ?case
  proof (cases "heap st a = []")
    case True
    with "1.prems" have "st' = st" by (simp add: while_decorators.simps [of a h st])
    moreover have "(heap st)(a := []) = heap st" using True by (metis fun_upd_triv)
    ultimately show ?thesis by simp
  next
    case False
    let ?st1 = "st\<lparr>heap := (heap st)(a := butlast (heap st a))\<rparr>"
    have pop: "list_pop a st = (Inr (last (heap st a)), ?st1)"
      using False by (simp add: list_pop_def)
    show ?thesis
    proof (cases "instantiate1 (last (heap st a)) h")
      case (Inl e)
      with False pop "1.prems" show ?thesis by (simp add: while_decorators.simps [of a h st])
    next
      case (Inr h2)
      from False pop Inr "1.prems" have w: "while_decorators a h2 ?st1 = (Inr h', st')"
        by (simp add: while_decorators.simps [of a h st])
      have "st' = ?st1\<lparr>heap := (heap ?st1)(a := [])\<rparr>"
        using "1.IH" [OF False pop [symmetric] refl Inr w] .
      also have "\<dots> = st\<lparr>heap := (heap st)(a := [])\<rparr>"
        by simp
      finally show ?thesis .
    qed
  qed
qed

lemma dispatch_request_success:
  assumes "heap st a = ds @ [c]" and "nested_call ds (instantiate0 c) = Inr h"
  shows "dispatch_request fn a kw st =
           (snd (fn h kw), st\<lparr>heap := (heap st)(a := []), stdout := stdout st @ fst (fn h kw)\<rparr>)"
proof -
  let ?st1 = "st\<lparr>heap := (heap st)(a := ds)\<rparr>"
  have pop: "list_pop a st = (Inr c, ?st1)"
    using assms(1) by (simp add: list_pop_def)
  from assms(2) obtain h0 where h0: "instantiate0 c = Inr h0"
    by (cases "instantiate0 c") (simp_all add: nested_call_Inl)
  have "fst (while_decorators a h0 ?st1) = Inr h"
    using assms(2) h0 by (simp add: while_decorators_result)
  then obtain st2 where w: "while_decorators a h0 ?st1 = (Inr h, st2)"
    by (cases "while_decorators a h0 ?st1") simp
  then have st2: "st2 = st\<lparr>heap := (heap st)(a := [])\<rparr>"
    using while_decorators_state [OF w] by simp
  show ?thesis
    using pop h0 w st2 by (simp add: dispatch_request_def split: prod.splits)
qed

lemma dispatch_request_failure:
  assumes "heap st a = ds @ [c]" and "nested_call ds (instantiate0 c) = Inl e"
  shows "fst (dispatch_request fn a kw st) = Inl e"
proof -
  let ?st1 = "st\<lparr>heap := (heap st)(a := ds)\<rparr>"
  have pop: "list_pop a st = (Inr c, ?st1)"
    using assms(1) by (simp add: list_pop_def)
  show ?thesis
  proof (cases "instantiate0 c")
    case (Inl e')
    with assms(2) have "e' = e" by (simp add: nested_call_Inl)
    with pop Inl show ?thesis by (simp add: dispatch_request_def)
  next
    case (Inr h0)
    have "fst (while_decorators a h0 ?st1) = Inl e"
      using assms(2) Inr by (simp add: while_decorators_result)
    then obtain st2 where "while_decorators a h0 ?st1 = (Inl e, st2)"
      by (cases "while_decorators a h0 ?st1") simp
    with pop Inr show ?thesis by (simp add: dispatch_request_def)
  qed
qed

lemma dispatch_request_empty:
  "heap st a = [] \<Longrightarrow> dispatch_request fn a kw st = (Inl IndexError, st)"
  by (simp add: dispatch_request_def list_pop_def)

lemma nested_call_components:
  "list_all is_component ds \<Longrightarrow> \<exists>h. nested_call ds (Inr x) = Inr h"
proof (induction ds)
  case Nil
  then show ?case by simp
next
  case (Cons d ds)
  then obtain h where "nested_call ds (Inr x) = Inr h" by auto
  moreover from Cons.prems obtain c ms where "d = ComponentClass c ms"
    by (cases d) simp_all
  ultimately show ?case by simp
qed

lemma nested_call_transforms:
  "list_all2 (transforms op) ds fs \<Longrightarrow>
   \<exists>h. nested_call ds (Inr x) = Inr h \<and>
       (\<forall>kw. call_method h op kw = foldr and_then fs (call_method x op kw))"
proof (induction ds fs rule: list_all2_induct)
  case Nil
  then show ?case by simp
next
  case (Cons d ds f fs)
  then obtain h where h: "nested_call ds (Inr x) = Inr h"
    and c: "\<And>kw. call_method h op kw = foldr and_then fs (call_method x op kw)"
    by auto
  from Cons.hyps(1) obtain c ms where d: "d = ComponentClass c ms" "op \<noteq> ''parent''"
    "map_of ms op = Some (\<lambda>parent kw. case parent op kw of Inl e \<Rightarrow> Inl e | Inr r \<Rightarrow> f r)"
    by (auto simp: transforms_def)
  have "call_method (ComponentObj c ms h) op kw = and_then f (call_method h op kw)" for kw
    using d(2,3) by (simp add: call_method_def and_then_def)
  with h d(1) c show ?case by simp
qed

lemma object_attrs_dunder: "name \<in> set (''__getattr__'' # object_attrs) \<Longrightarrow> dunder name"
  by (auto simp: object_attrs_def dunder_def)

lemma nested_call_passthrough:
  "list_all (\<lambda>d. is_component d \<and> \<not> overrides d name) ds \<Longrightarrow> name \<noteq> ''parent'' \<Longrightarrow>
   \<not> dunder name \<Longrightarrow>
   \<exists>h. nested_call ds (Inr x) = Inr h \<and> getattr h name = getattr x name"
proof (induction ds)
  case Nil
  then show ?case by simp
next
  case (Cons d ds)
  then obtain h where h: "nested_call ds (Inr x) = Inr h" "getattr h name = getattr x name"
    by auto
  from Cons.prems obtain c ms where d: "d = ComponentClass c ms" "map_of ms name = None"
    by (cases d) auto
  have "name \<notin> set (''__getattr__'' # object_attrs)"
    using Cons.prems(3) object_attrs_dunder by blast
  then have "getattr (ComponentObj c ms h) name = getattr h name"
    using d(2) Cons.prems(2) by simp
  with h d(1) show ?case by simp
qed

text \<open>
  Claim C4. For a list \<open>[D1, ..., Dn, Concrete]\<close>, \<open>dispatch_request\<close> gives the
  controller the value of \<^verbatim>\<open>D1(D2(...Dn(Concrete())...))\<close>: \<^verbatim>\<open>Concrete\<close> is called
  first, with no argument, and the first class of the list makes the outermost
  object. When every \<open>Di\<close> overrides an operation with a transformation, the
  operation on that object applies the transformation of \<open>Dn\<close> first and the
  one of \<open>D1\<close> last to the result of the concrete handler.
\<close>

theorem dispatch_request_chain_order:
  assumes "heap st a = ds @ [c]"
  shows "fst (dispatch_request fn a kw st) =
           (case nested_call ds (instantiate0 c) of Inl e \<Rightarrow> Inl e | Inr h \<Rightarrow> snd (fn h kw)) \<and>
         (\<forall>hn hm fs. c = HandlerClass hn hm \<and> list_all2 (transforms op) ds fs \<longrightarrow>
            (\<exists>h. nested_call ds (instantiate0 c) = Inr h \<and>
                 (\<forall>kw'. call_method h op kw' =
                          foldr and_then fs (call_method (HandlerObj hn hm) op kw'))))"
proof
  show "fst (dispatch_request fn a kw st) =
           (case nested_call ds (instantiate0 c) of Inl e \<Rightarrow> Inl e | Inr h \<Rightarrow> snd (fn h kw))"
  proof (cases "nested_call ds (instantiate0 c)")
    case (Inl e)
    then show ?thesis using dispatch_request_failure [OF assms Inl] by simp
  next
    case (Inr h)
    then show ?thesis using dispatch_request_success [OF assms Inr] by simp
  qed
next
  show "\<forall>hn hm fs. c = HandlerClass hn hm \<and> list_all2 (transforms op) ds fs \<longrightarrow>
            (\<exists>h. nested_call ds (instantiate0 c) = Inr h \<and>
                 (\<forall>kw'. call_method h op kw' =
                          foldr and_then fs (call_method (HandlerObj hn hm) op kw')))"
    using nested_call_transforms by auto
qed

lemma A_transforms: "transforms ''test'' A (\<lambda>r. setitem r ''A'' (PBool True))"
  by (simp add: transforms_def A_def)

lemma B_transforms: "transforms ''test'' B (\<lambda>r. setitem r ''B'' (PBool True))"
  by (simp add: transforms_def B_def)

theorem dispatch_request_chain_order_witness:
  "heap (list_state [A, B, JSONAPIHandler]) 0 = [A, B] @ [JSONAPIHandler] \<and>
   JSONAPIHandler = HandlerClass ''JSONAPIHandler'' [(''test'', \<lambda>uri_args. Inr (PDict [(''hello'', PStr ''world'')]))] \<and>
   list_all2 (transforms ''test'') [A, B] [\<lambda>r. setitem r ''A'' (PBool True), \<lambda>r. setitem r ''B'' (PBool True)] \<and>
   fst (dispatch_request controller 0 [] (list_state [A, B, JSONAPIHandler])) =
     Inr (PStr ''hello, world!'') \<and>
   (\<exists>h. nested_call [A, B] (instantiate0 JSONAPIHandler) = Inr h \<and>
        call_method h ''test'' [] =
          Inr (PDict [(''hello'', PStr ''world''), (''B'', PBool True), (''A'', PBool True)]))"
proof -
  let ?st = "list_state [A, B, JSONAPIHandler]"
  let ?fs = "[\<lambda>r. setitem r ''A'' (PBool True), \<lambda>r. setitem r ''B'' (PBool True)]"
  have h1: "heap ?st 0 = [A, B] @ [JSONAPIHandler]" by (simp add: list_state_heap)
  have h2: "JSONAPIHandler = HandlerClass ''JSONAPIHandler'' [(''test'', \<lambda>uri_args. Inr (PDict [(''hello'', PStr ''world'')]))]"
    by (simp add: JSONAPIHandler_def)
  have h3: "list_all2 (transforms ''test'') [A, B] ?fs"
    by (simp add: A_transforms B_transforms)
  note t = dispatch_request_chain_order [OF h1, of controller "[]" "''test''"]
  from t h2 h3 obtain h where h: "nested_call [A, B] (instantiate0 JSONAPIHandler) = Inr h"
    "\<And>kw'. call_method h ''test'' kw' = foldr and_then ?fs
        (call_method (HandlerObj ''JSONAPIHandler'' [(''test'', \<lambda>uri_args. Inr (PDict [(''hello'', PStr ''world'')]))]) ''test'' kw')"
    by blast
  have c: "call_method h ''test'' [] =
          Inr (PDict [(''hello'', PStr ''world''), (''B'', PBool True), (''A'', PBool True)])"
    by (subst h(2)) (simp add: and_then_def call_method_def)
  have "fst (dispatch_request controller 0 [] ?st) = snd (controller h [])"
    using t h(1) by simp
  then have "fst (dispatch_request controller 0 [] ?st) = Inr (PStr ''hello, world!'')"
    by (simp add: controller_def c)
  with h1 h2 h3 h(1) c show ?thesis by blast
qed

text \<open>
  Claim C9 as stated fails at two kinds of names, on the chain
  \<^verbatim>\<open>A(JSONAPIHandler())\<close> of the script. \<^verbatim>\<open>A\<close> does not override \<^verbatim>\<open>__str__\<close>, yet
  \<^verbatim>\<open>__str__()\<close> on the outer object is answered by the outer object itself, from
  \<^verbatim>\<open>object\<close>, and is not the answer of the handler. \<^verbatim>\<open>A\<close> does not override
  \<^verbatim>\<open>parent\<close> either, yet \<^verbatim>\<open>parent\<close> on the outer object is the wrapped object
  (calling it raises TypeError), where the handler has no such attribute
  (AttributeError).
\<close>

theorem component_passthrough_counterexample:
  "\<not> overrides A ''__str__'' \<and>
   (case nested_call [A] (instantiate0 JSONAPIHandler) of
      Inl e \<Rightarrow> Inl e | Inr h \<Rightarrow> call_method h ''__str__'' []) = Inr (PObject ''A'' ''__str__'') \<and>
   (case instantiate0 JSONAPIHandler of
      Inl e \<Rightarrow> Inl e | Inr h \<Rightarrow> call_method h ''__str__'' []) =
     Inr (PObject ''JSONAPIHandler'' ''__str__'') \<and>
   \<not> overrides A ''parent'' \<and>
   (case nested_call [A] (instantiate0 JSONAPIHandler) of
      Inl e \<Rightarrow> Inl e | Inr h \<Rightarrow> call_method h ''parent'' []) = Inl TypeError \<and>
   (case instantiate0 JSONAPIHandler of
      Inl e \<Rightarrow> Inl e | Inr h \<Rightarrow> call_method h ''parent'' []) = Inl AttributeError"
  by (simp add: A_def JSONAPIHandler_def call_method_def object_attrs_def)

text \<open>
  Claim C9, amended. Let \<open>name\<close> be an operation name other than \<^verbatim>\<open>parent\<close> and
  not of the form \<^verbatim>\<open>__x__\<close>, and let every class of the chain be a component
  that does not override \<open>name\<close>. Then looking \<open>name\<close> up on the outermost
  object goes through \<^verbatim>\<open>Component.__getattr__\<close> at every level and yields the
  attribute of the innermost object \<open>x\<close>, and calling it yields exactly the
  result of \<open>x\<close>.
\<close>

theorem component_passthrough:
  assumes "list_all (\<lambda>d. is_component d \<and> \<not> overrides d name) ds"
    and "name \<noteq> ''parent''" and "\<not> dunder name"
  shows "\<exists>h. nested_call ds (Inr x) = Inr h \<and>
             getattr h name = getattr x name \<and>
             (\<forall>kw. call_method h name kw = call_method x name kw)"
proof -
  from nested_call_passthrough [OF assms]
  obtain h where "nested_call ds (Inr x) = Inr h" "getattr h name = getattr x name"
    by blast
  then show ?thesis by (auto simp: call_method_def)
qed

theorem component_passthrough_witness:
  "list_all (\<lambda>d. is_component d \<and> \<not> overrides d ''test'') [Component, Component] \<and>
   ''test'' \<noteq> ''parent'' \<and> \<not> dunder ''test'' \<and>
   (\<exists>h. nested_call [Component, Component] (instantiate0 JSONAPIHandler) = Inr h \<and>
        call_method h ''test'' [] = Inr (PDict [(''hello'', PStr ''world'')]))"
proof -
  have h1: "list_all (\<lambda>d. is_component d \<and> \<not> overrides d ''test'') [Component, Component]"
    by (simp add: Component_def)
  have h2: "''test'' \<noteq> ''parent''" by simp
  have h3: "\<not> dunder ''test''" by (simp add: dunder_def)
  have i: "instantiate0 JSONAPIHandler = Inr (HandlerObj ''JSONAPIHandler''
     [(''test'', \<lambda>uri_args. Inr (PDict [(''hello'', PStr ''world'')]))])" (is "_ = Inr ?x")
    by (simp add: JSONAPIHandler_def)
  from component_passthrough [OF h1 h2 h3, of ?x]
  obtain h where "nested_call [Component, Component] (Inr ?x) = Inr h"
    "\<forall>kw. call_method h ''test'' kw = call_method ?x ''test'' kw"
    by blast
  moreover have "call_method ?x ''test'' [] = Inr (PDict [(''hello'', PStr ''world'')])"
    by (simp add: call_method_def)
  ultimately show ?thesis using h1 h2 h3 i by auto
qed

text \<open>
  Claim C1 does not hold of the code. \<open>dispatch_request\<close> pops every element
  of the list object it is given: on the list \<^verbatim>\<open>[A, B, JSONAPIHandler]\<close> and the
  controller of the script it returns \<^verbatim>\<open>'hello, world!'\<close> and leaves the list
  empty, so that a second dispatch on the same list raises IndexError.
\<close>

theorem dispatch_request_empties_list:
  "heap (list_state [A, B, JSONAPIHandler]) 0 = [A, B, JSONAPIHandler] \<and>
   fst (dispatch_request controller 0 [] (list_state [A, B, JSONAPIHandler])) =
     Inr (PStr ''hello, world!'') \<and>
   heap (snd (dispatch_request controller 0 [] (list_state [A, B, JSONAPIHandler]))) 0 = [] \<and>
   fst (dispatch_request controller 0 []
          (snd (dispatch_request controller 0 [] (list_state [A, B, JSONAPIHandler])))) =
     Inl IndexError"
proof -
  let ?st = "list_state [A, B, JSONAPIHandler]"
  have h: "heap ?st 0 = [A, B] @ [JSONAPIHandler]" by (simp add: list_state_heap)
  have n: "nested_call [A, B] (instantiate0 JSONAPIHandler) =
      Inr (ComponentObj ''A'' [(''test'', \<lambda>parent uri_args.
             case parent ''test'' uri_args of
               Inl e \<Rightarrow> Inl e
             | Inr r \<Rightarrow> setitem r ''A'' (PBool True))]
         (ComponentObj ''B'' [(''test'', \<lambda>parent uri_args.
             case parent ''test'' uri_args of
               Inl e \<Rightarrow> Inl e
             | Inr r \<Rightarrow> setitem r ''B'' (PBool True))]
           (HandlerObj ''JSONAPIHandler'' [(''test'', \<lambda>uri_args. Inr (PDict [(''hello'', PStr ''world'')]))])))"
    (is "_ = Inr ?h")
    by (simp add: A_def B_def JSONAPIHandler_def)
  have c: "controller ?h [] = ([PDict [(''hello'', PStr ''world''), (''B'', PBool True), (''A'', PBool True)]],
      Inr (PStr ''hello, world!''))"
    by (simp add: controller_def call_method_def)
  note d = dispatch_request_success [OF h n, of controller "[]"]
  have r: "fst (dispatch_request controller 0 [] ?st) = Inr (PStr ''hello, world!'')"
    using d c by simp
  have e: "heap (snd (dispatch_request controller 0 [] ?st)) 0 = []"
    using d by simp
  have "fst (dispatch_request controller 0 [] (snd (dispatch_request controller 0 [] ?st))) = Inl IndexError"
    using dispatch_request_empty [OF e] by simp
  with h r e show ?thesis by simp
qed

text \<open>
  Claim C10 as stated fails: on an empty list the exception is the built-in
  IndexError of \<^verbatim>\<open>pop\<close>, and a constructor that is called with the wrong
  number of arguments raises TypeError, which is passed on as it is.
\<close>

theorem dispatch_request_error_names_counterexample:
  "fst (dispatch_request controller 0 [] (list_state [])) = Inl IndexError \<and>
   exc_name IndexError \<noteq> ''ConfigurationError'' \<and>
   fst (dispatch_request controller 0 [] (list_state [A])) = Inl TypeError \<and>
   exc_name TypeError \<noteq> ''ConstructionError''"
proof -
  have "fst (dispatch_request controller 0 [] (list_state [])) = Inl IndexError"
    by (simp add: dispatch_request_empty list_state_heap)
  moreover have "fst (dispatch_request controller 0 [] (list_state [A])) = Inl TypeError"
    by (rule dispatch_request_failure [where ds = "[]" and c = A])
       (simp_all add: A_def list_state_heap)
  ultimately show ?thesis by simp
qed

text \<open>
  Claim C10, amended. On an empty list \<open>dispatch_request\<close> raises IndexError
  and changes nothing. When the evaluation of \<^verbatim>\<open>D1(...Dn(Concrete())...)\<close> raises
  an exception in one of the constructors, \<open>dispatch_request\<close> raises that same
  exception. In both cases no result is returned.
\<close>

theorem dispatch_request_failures:
  "(heap st a = [] \<longrightarrow> dispatch_request fn a kw st = (Inl IndexError, st)) \<and>
   (heap st a = ds @ [c] \<and> nested_call ds (instantiate0 c) = Inl e \<longrightarrow>
      fst (dispatch_request fn a kw st) = Inl e)"
  using dispatch_request_empty dispatch_request_failure by blast

theorem dispatch_request_failures_witness:
  "heap (list_state []) 0 = [] \<and>
   dispatch_request controller 0 [] (list_state []) = (Inl IndexError, list_state []) \<and>
   heap (list_state [JSONAPIHandler, JSONAPIHandler]) 0 = [JSONAPIHandler] @ [JSONAPIHandler] \<and>
   nested_call [JSONAPIHandler] (instantiate0 JSONAPIHandler) = Inl TypeError \<and>
   fst (dispatch_request controller 0 [] (list_state [JSONAPIHandler, JSONAPIHandler])) = Inl TypeError"
proof -
  have h1: "heap (list_state []) 0 = []" by (simp add: list_state_heap)
  have h2: "heap (list_state [JSONAPIHandler, JSONAPIHandler]) 0 = [JSONAPIHandler] @ [JSONAPIHandler]"
    by (simp add: list_state_heap)
  have h3: "nested_call [JSONAPIHandler] (instantiate0 JSONAPIHandler) = Inl TypeError"
    by (simp add: JSONAPIHandler_def)
  show ?thesis
    using h1 h2 h3
      dispatch_request_failures [of "list_state []" 0 controller "[]" "[]" JSONAPIHandler TypeError]
      dispatch_request_failures [of "list_state [JSONAPIHandler, JSONAPIHandler]" 0
         controller "[]" "[JSONAPIHandler]" JSONAPIHandler TypeError]
    by blast
qed

section \<open>Registration\<close>

lemma extends_refl: "extends tbl st st"
  by (simp add: extends_def)

lemma extends_trans:
  assumes "extends tbl st1 st2" and "extends tbl st2 st3"
  shows "extends tbl st1 st3"
proof -
  from assms(1) obtain n1 where n1: "rules st2 = rules st1 @ n1"
    "\<forall>r\<in>set n1. next_addr st1 \<le> partial_decorators (rule_view r) \<and>
                  partial_decorators (rule_view r) < next_addr st2 \<and> (\<exists>rs. tbl rs r = None)"
    by (auto simp: extends_def)
  from assms(2) obtain n2 where n2: "rules st3 = rules st2 @ n2"
    "\<forall>r\<in>set n2. next_addr st2 \<le> partial_decorators (rule_view r) \<and>
                  partial_decorators (rule_view r) < next_addr st3 \<and> (\<exists>rs. tbl rs r = None)"
    by (auto simp: extends_def)
  have le: "next_addr st1 \<le> next_addr st2" "next_addr st2 \<le> next_addr st3"
    using assms by (auto simp: extends_def)
  have "rules st3 = rules st1 @ (n1 @ n2)" using n1 n2 by simp
  moreover have "\<forall>r\<in>set (n1 @ n2). next_addr st1 \<le> partial_decorators (rule_view r) \<and>
                  partial_decorators (rule_view r) < next_addr st3 \<and> (\<exists>rs. tbl rs r = None)"
    using n1(2) n2(2) le by fastforce
  moreover have "\<forall>a<next_addr st1. heap st3 a = heap st1 a"
    using assms le by (auto simp: extends_def)
  moreover have "stdout st3 = stdout st1" using assms by (simp add: extends_def)
  ultimately show ?thesis using le unfolding extends_def by (meson le_trans)
qed

lemma new_list_extends: "extends tbl st (snd (new_list xs st))"
  by (simp add: new_list_def extends_def)

lemma list_add_extends: "extends tbl st (snd (list_add a b st))"
  by (simp add: list_add_def new_list_extends)

lemma or_empty_extends: "extends tbl st (snd (or_empty co st))"
  by (simp add: or_empty_def new_list_extends extends_refl split: option.splits)

lemma add_route_Route_extends:
  "extends tbl st (snd (add_route tbl (Route rp fn h m rn rc) c p n st))"
  by (auto simp: list_add_def new_list_def add_url_rule_def extends_def Let_def
           split: option.splits)

lemma add_routes_extends:
  "extends tbl st (snd (add_routes tbl rso co p n st))"
  "extends tbl st (snd (for_routes tbl rs c p n st))"
  "extends tbl st (snd (add_route tbl r c p n st))"
proof (induction tbl rso co p n st and tbl rs c p n st and tbl r c p n st
       rule: add_routes_for_routes_add_route.induct)
  case (1 tbl components prefix namespace st)
  then show ?case
    using or_empty_extends [of tbl st components] by (auto split: prod.splits)
next
  case (2 tbl rs components prefix namespace st)
  obtain c st1 where oe: "or_empty components st = (c, st1)" by (cases "or_empty components st")
  have "extends tbl st st1" using or_empty_extends [of tbl st components] oe by simp
  moreover have "extends tbl st1 (snd (for_routes tbl rs c prefix namespace st1))"
    using "2.IH" [OF oe [symmetric]] .
  ultimately show ?case using oe by (simp add: extends_trans)
next
  case (3 tbl components prefix namespace st)
  then show ?case by (simp add: extends_refl)
next
  case (4 tbl r rs components prefix namespace st)
  obtain x st1 where ar: "add_route tbl r components prefix namespace st = (x, st1)"
    by (cases "add_route tbl r components prefix namespace st")
  have e1: "extends tbl st st1" using "4.IH"(1) ar by simp
  show ?case
  proof (cases x)
    case None
    have "extends tbl st1 (snd (for_routes tbl rs components prefix namespace st1))"
      using "4.IH"(2) [OF ar [symmetric] None] .
    with e1 ar None show ?thesis by (simp add: extends_trans)
  next
    case (Some e)
    with e1 ar show ?thesis by simp
  qed
next
  case (5 tbl iprefix rs icomponents inamespace components prefix namespace st)
  obtain c st1 where la: "list_add components icomponents st = (c, st1)"
    by (cases "list_add components icomponents st")
  have "extends tbl st st1" using list_add_extends [of tbl st components icomponents] la by simp
  moreover have "extends tbl st1 (snd (add_routes tbl rs (Some c) (prefix @ iprefix) (namespace @ inamespace) st1))"
    using "5.IH" [OF refl refl la [symmetric]] .
  ultimately show ?case using la by (simp add: extends_trans)
next
  case (6 tbl rpath fn handler rmethod rname rcomponents components prefix namespace st)
  show ?case by (rule add_route_Route_extends)
qed

lemma flatten_spec_cong:
  "list_all (\<lambda>a. H a = H' a) (tree_addrs r) \<Longrightarrow> flatten_spec H ds p n r = flatten_spec H' ds p n r"
proof (induction H ds p n r rule: flatten_spec.induct)
  case (1 H ds p n rp fn h m rn rc)
  then show ?case by simp
next
  case (2 H ds p n ip rs ic ins)
  show ?case
  proof (cases rs)
    case None
    then show ?thesis by simp
  next
    case (Some xs)
    have "flatten_spec H (ds @ H ic) (p @ ip) (n @ ins) x = flatten_spec H' (ds @ H ic) (p @ ip) (n @ ins) x"
      if "x \<in> set xs" for x
    proof -
      have "list_all (\<lambda>a. H a = H' a) (tree_addrs x)"
        using "2.prems" Some that by (auto simp: list_all_iff)
      then show ?thesis using "2.IH" [OF Some that] by simp
    qed
    moreover have "H ic = H' ic" using "2.prems" by simp
    ultimately show ?thesis using Some by (simp cong: map_cong)
  qed
qed

lemma allocated_extends: "extends tbl st st' \<Longrightarrow> allocated st r \<Longrightarrow> allocated st' r"
  by (auto simp: allocated_def extends_def list_all_iff)

lemma flatten_spec_extends:
  assumes "extends tbl st st'" and "allocated st r"
  shows "flatten_spec (heap st') ds p n r = flatten_spec (heap st) ds p n r"
  using assms by (intro flatten_spec_cong) (auto simp: allocated_def extends_def list_all_iff)

lemma new_rules_compose:
  assumes "extends tbl st st1" and "extends tbl st1 st2"
  shows "map (binding_of st2) (new_rules st st2) =
         map (binding_of st1) (new_rules st st1) @ map (binding_of st2) (new_rules st1 st2)"
proof -
  from assms(1) obtain n1 where n1: "rules st1 = rules st @ n1"
    "\<forall>r\<in>set n1. partial_decorators (rule_view r) < next_addr st1"
    by (auto simp: extends_def)
  from assms(2) obtain n2 where n2: "rules st2 = rules st1 @ n2"
    by (auto simp: extends_def)
  have "binding_of st2 r = binding_of st1 r" if "r \<in> set n1" for r
    using that n1(2) assms(2) by (simp add: binding_of_def extends_def)
  then have "map (binding_of st2) n1 = map (binding_of st1) n1"
    by simp
  then show ?thesis using n1(1) n2 by (simp add: new_rules_def)
qed

lemma new_rules_same: "rules st1 = rules st \<Longrightarrow> new_rules st st2 = new_rules st1 st2"
  by (simp add: new_rules_def)

lemma add_route_Route_registers:
  "registers (add_route tbl (Route rp fn h m rn rc) c p n st) st
     (flatten_spec (heap st) (heap st c) p n (Route rp fn h m rn rc))"
  by (auto simp: registers_def list_add_def new_list_def add_url_rule_def new_rules_def
                 binding_of_def Let_def split: option.splits)

lemma add_routes_registers:
  "list_all (allocated st) (case rso of None \<Rightarrow> [] | Some xs \<Rightarrow> xs) \<Longrightarrow>
   (\<And>a. co = Some a \<Longrightarrow> a < next_addr st) \<Longrightarrow>
     registers (add_routes tbl rso co p n st) st
       (concat (map (flatten_spec (heap st) (case co of None \<Rightarrow> [] | Some a \<Rightarrow> heap st a) p n)
                    (case rso of None \<Rightarrow> [] | Some xs \<Rightarrow> xs)))"
  "list_all (allocated st) rs \<Longrightarrow> c < next_addr st \<Longrightarrow>
     registers (for_routes tbl rs c p n st) st
       (concat (map (flatten_spec (heap st) (heap st c) p n) rs))"
  "allocated st r \<Longrightarrow> c < next_addr st \<Longrightarrow>
     registers (add_route tbl r c p n st) st (flatten_spec (heap st) (heap st c) p n r)"
proof (induction tbl rso co p n st and tbl rs c p n st and tbl r c p n st
       rule: add_routes_for_routes_add_route.induct)
  case (1 tbl components prefix namespace st)
  have "rules (snd (or_empty components st)) = rules st"
    by (simp add: or_empty_def new_list_def split: option.splits)
  then show ?case by (auto simp: registers_def new_rules_def split: prod.splits)
next
  case (2 tbl rs components prefix namespace st)
  obtain c st1 where oe: "or_empty components st = (c, st1)" by (cases "or_empty components st")
  have e: "extends tbl st st1" using or_empty_extends [of tbl st components] oe by simp
  have c: "c < next_addr st1" "heap st1 c = (case components of None \<Rightarrow> [] | Some a \<Rightarrow> heap st a)"
       and r: "rules st1 = rules st"
    using oe "2.prems"(2) by (auto simp: or_empty_def new_list_def split: option.splits if_splits)
  have al: "list_all (allocated st1) rs"
    using "2.prems"(1) e by (auto simp: list_all_iff intro: allocated_extends)
  have fl: "map (flatten_spec (heap st1) ds prefix namespace) rs =
            map (flatten_spec (heap st) ds prefix namespace) rs" for ds
    using "2.prems"(1) e by (auto simp: list_all_iff intro: flatten_spec_extends)
  from "2.IH" [OF oe [symmetric] al c(1)] oe c(2) r fl show ?case
    by (simp add: registers_def new_rules_same [OF r])
next
  case (3 tbl components prefix namespace st)
  then show ?case by (simp add: registers_def new_rules_def)
next
  case (4 tbl r rs components prefix namespace st)
  obtain x st1 where ar: "add_route tbl r components prefix namespace st = (x, st1)"
    by (cases "add_route tbl r components prefix namespace st")
  have e1: "extends tbl st st1"
    using add_routes_extends(3) [of tbl st r components prefix namespace] ar by simp
  from "4.prems" have pr: "allocated st r" and prs: "list_all (allocated st) rs" by simp_all
  let ?f = "flatten_spec (heap st) (heap st components) prefix namespace"
  from "4.IH"(1) [OF pr "4.prems"(2)] ar
  have b1: "\<exists>rest. ?f r = map (binding_of st1) (new_rules st st1) @ rest"
    "x = None \<longrightarrow> map (binding_of st1) (new_rules st st1) = ?f r"
    by (simp_all add: registers_def)
  show ?case
  proof (cases x)
    case (Some e)
    then have "for_routes tbl (r # rs) components prefix namespace st = (Some e, st1)"
      using ar by simp
    moreover from b1(1) obtain rest where "?f r = map (binding_of st1) (new_rules st st1) @ rest"
      by blast
    then have "concat (map ?f (r # rs)) =
        map (binding_of st1) (new_rules st st1) @ (rest @ concat (map ?f rs))"
      by simp
    ultimately show ?thesis unfolding registers_def by (metis fst_conv snd_conv option.distinct(1))
  next
    case None
    let ?res = "for_routes tbl rs components prefix namespace st1"
    have e2: "extends tbl st1 (snd ?res)" by (rule add_routes_extends(2))
    have al: "list_all (allocated st1) rs"
      using prs e1 by (auto simp: list_all_iff intro: allocated_extends)
    have c1: "components < next_addr st1" "heap st1 components = heap st components"
      using e1 "4.prems"(2) by (auto simp: extends_def)
    have fl: "map (flatten_spec (heap st1) ds prefix namespace) rs =
              map (flatten_spec (heap st) ds prefix namespace) rs" for ds
      using prs e1 by (auto simp: list_all_iff intro: flatten_spec_extends)
    from "4.IH"(2) [OF ar [symmetric] None al c1(1)]
    have b2: "\<exists>rest. concat (map ?f rs) = map (binding_of (snd ?res)) (new_rules st1 (snd ?res)) @ rest"
      "fst ?res = None \<longrightarrow> map (binding_of (snd ?res)) (new_rules st1 (snd ?res)) = concat (map ?f rs)"
      using c1(2) fl by (simp_all add: registers_def)
    have all: "map (binding_of (snd ?res)) (new_rules st (snd ?res)) =
        ?f r @ map (binding_of (snd ?res)) (new_rules st1 (snd ?res))"
      using new_rules_compose [OF e1 e2] b1(2) None by simp
    have eq: "for_routes tbl (r # rs) components prefix namespace st = ?res"
      using ar None by simp
    from b2(1) obtain rest where
      "concat (map ?f rs) = map (binding_of (snd ?res)) (new_rules st1 (snd ?res)) @ rest"
      by blast
    then have p: "concat (map ?f (r # rs)) = map (binding_of (snd ?res)) (new_rules st (snd ?res)) @ rest"
      using all by simp
    have "fst ?res = None \<longrightarrow> map (binding_of (snd ?res)) (new_rules st (snd ?res)) = concat (map ?f (r # rs))"
      using b2(2) all by simp
    with p show ?thesis unfolding registers_def eq by blast
  qed
next
  case (5 tbl iprefix rs icomponents inamespace components prefix namespace st)
  obtain c st1 where la: "list_add components icomponents st = (c, st1)"
    by (cases "list_add components icomponents st")
  have e: "extends tbl st st1" using list_add_extends [of tbl st components icomponents] la by simp
  have c: "c < next_addr st1" "heap st1 c = heap st components @ heap st icomponents"
       and r: "rules st1 = rules st"
    using la by (auto simp: list_add_def new_list_def)
  let ?ys = "case rs of None \<Rightarrow> [] | Some xs \<Rightarrow> xs"
  have al0: "list_all (allocated st) ?ys"
    using "5.prems"(1) by (auto simp: allocated_def list_all_iff split: option.splits)
  then have al: "list_all (allocated st1) ?ys"
    using e by (auto simp: list_all_iff intro: allocated_extends)
  have fl: "map (flatten_spec (heap st1) ds pp nn) ?ys =
            map (flatten_spec (heap st) ds pp nn) ?ys" for ds pp nn
    using al0 e by (auto simp: list_all_iff intro: flatten_spec_extends)
  have c': "\<And>a. Some c = Some a \<Longrightarrow> a < next_addr st1" using c(1) by simp
  have fs: "flatten_spec (heap st) (heap st components) prefix namespace
              (Include iprefix rs icomponents inamespace) =
            concat (map (flatten_spec (heap st) (heap st components @ heap st icomponents)
                           (prefix @ iprefix) (namespace @ inamespace)) ?ys)"
    by (simp split: option.splits)
  from "5.IH" [OF refl refl la [symmetric] al c'] la c(2) fl fs show ?case
    by (simp add: registers_def new_rules_same [OF r])
next
  case (6 tbl rpath fn handler rmethod rname rcomponents components prefix namespace st)
  show ?case by (rule add_route_Route_registers)
qed

lemma add_routes_accepted:
  "(\<forall>rs r. tbl rs r = None) \<Longrightarrow> rso = Some xs \<Longrightarrow> list_all routes_present xs \<Longrightarrow>
     fst (add_routes tbl rso co p n st) = None"
  "(\<forall>rs r. tbl rs r = None) \<Longrightarrow> list_all routes_present rs \<Longrightarrow>
     fst (for_routes tbl rs c p n st) = None"
  "(\<forall>rs r. tbl rs r = None) \<Longrightarrow> routes_present r \<Longrightarrow>
     fst (add_route tbl r c p n st) = None"
proof (induction tbl rso co p n st and tbl rs c p n st and tbl r c p n st
       arbitrary: xs rule: add_routes_for_routes_add_route.induct)
  case (1 tbl components prefix namespace st)
  then show ?case by simp
next
  case (2 tbl rs components prefix namespace st)
  obtain c st1 where oe: "or_empty components st = (c, st1)" by (cases "or_empty components st")
  from "2.prems" have "list_all routes_present rs" by simp
  from "2.IH" [OF oe [symmetric] "2.prems"(1) this] oe show ?case by simp
next
  case (3 tbl components prefix namespace st)
  then show ?case by simp
next
  case (4 tbl r rs components prefix namespace st)
  obtain x st1 where ar: "add_route tbl r components prefix namespace st = (x, st1)"
    by (cases "add_route tbl r components prefix namespace st")
  from "4.prems" have pr: "routes_present r" and prs: "list_all routes_present rs" by simp_all
  from "4.IH"(1) [OF "4.prems"(1) pr] ar have x: "x = None" by simp
  from "4.IH"(2) [OF ar [symmetric] x "4.prems"(1) prs] ar x show ?case by simp
next
  case (5 tbl iprefix rs icomponents inamespace components prefix namespace st)
  obtain c st1 where la: "list_add components icomponents st = (c, st1)"
    by (cases "list_add components icomponents st")
  from "5.prems"(2) obtain ys where ys: "rs = Some ys" "list_all routes_present ys"
    by (cases rs) simp_all
  from "5.IH" [OF refl refl la [symmetric] "5.prems"(1) ys] la show ?case by simp
next
  case (6 tbl rpath fn handler rmethod rname rcomponents components prefix namespace st)
  then show ?case
    by (simp add: list_add_def new_list_def add_url_rule_def Let_def)
qed


lemma flatten_spec_chains:
  "map (\<lambda>b. fst (snd (snd b))) (flatten_spec H ds p n r) = map (\<lambda>pl. ds @ chain_of H pl) (leaf_paths r)"
proof (induction H ds p n r rule: flatten_spec.induct)
  case (1 H ds p n rp fn h m rn rc)
  then show ?case by (simp add: chain_of_def)
next
  case (2 H ds p n ip rs ic ins)
  show ?case
  proof (cases rs)
    case None
    then show ?thesis by simp
  next
    case (Some xs)
    have "map (\<lambda>b. fst (snd (snd b))) (flatten_spec H (ds @ H ic) (p @ ip) (n @ ins) x) =
          map (\<lambda>pl. ds @ chain_of H (Include ip rs ic ins # fst pl, snd pl)) (leaf_paths x)"
      if "x \<in> set xs" for x
      using "2.IH" [OF Some that] by (simp add: chain_of_def)
    then have "map (\<lambda>x. map (\<lambda>b. fst (snd (snd b))) (flatten_spec H (ds @ H ic) (p @ ip) (n @ ins) x)) xs =
          map (\<lambda>x. map (\<lambda>pl. ds @ chain_of H (Include ip rs ic ins # fst pl, snd pl)) (leaf_paths x)) xs"
      by (intro map_cong refl) simp
    then show ?thesis
      using Some by (simp add: map_concat case_prod_beta comp_def cong: map_cong)
  qed
qed




text \<open>
  Claim C7 does not hold of the code when the name is empty. On a table without
  rules, a leaf whose accumulated namespace followed by its name is the empty
  string is passed to \<^verbatim>\<open>add_url_rule\<close> with the name \<^verbatim>\<open>None\<close> and a
  \<^verbatim>\<open>functools.partial\<close> as the view: Flask raises AttributeError and no rule is
  registered. Otherwise the leaf is registered under exactly that concatenation;
  under a group the namespace of the group comes between the inherited
  namespace and the name of the leaf.
\<close>

theorem add_route_empty_name:
  "fst (add_route flask (Route rp fn h m rn rc) c p n (st\<lparr>rules := []\<rparr>)) =
     (if n @ rn = [] then Some AttributeError else None) \<and>
   map rule_name (rules (snd (add_route flask (Route rp fn h m rn rc) c p n (st\<lparr>rules := []\<rparr>)))) =
     (if n @ rn = [] then [] else [Some (n @ rn)]) \<and>
   fst (add_routes flask (Some [Include ip (Some [Route rp fn h m rn rc]) ic ins]) co p n
          (st\<lparr>rules := []\<rparr>)) =
     (if n @ ins @ rn = [] then Some AttributeError else None) \<and>
   map rule_name
     (rules (snd (add_routes flask (Some [Include ip (Some [Route rp fn h m rn rc]) ic ins]) co p n
                    (st\<lparr>rules := []\<rparr>)))) =
     (if n @ ins @ rn = [] then [] else [Some (n @ ins @ rn)])"
  by (simp add: list_add_def new_list_def add_url_rule_def flask_def or_None_def or_empty_def Let_def
           split: option.splits)

text \<open>
  Claim C8 does not hold of the code for an absent list. A group whose
  \<^verbatim>\<open>routes\<close> is \<^verbatim>\<open>None\<close> makes \<open>add_route\<close> raise TypeError, and so does
  \<open>add_routes\<close> on \<^verbatim>\<open>None\<close>; a group with the empty list registers nothing and
  raises nothing. This holds with every routing table.
\<close>

theorem add_route_absent_routes:
  "fst (add_route tbl (Include ip None ic ins) c p n st) = Some TypeError \<and>
   fst (add_routes tbl None co p n st) = Some TypeError \<and>
   fst (add_route tbl (Include ip (Some []) ic ins) c p n st) = None \<and>
   rules (snd (add_route tbl (Include ip (Some []) ic ins) c p n st)) = rules st"
  by (simp add: list_add_def new_list_def or_empty_def split: prod.splits)

text \<open>
  Claim C5. Registering the trees \<open>ts\<close> from the root adds a rule for one leaf
  after the other, in the order of the traversal, and the list that the closure
  of a leaf \<^verbatim>\<open>L\<close> holds is made of the components of the groups on the way to
  \<^verbatim>\<open>L\<close>, root first, then the components of \<^verbatim>\<open>L\<close>, then the handler of \<^verbatim>\<open>L\<close>: for
  \<^verbatim>\<open>G\<close> holding \<^verbatim>\<open>H\<close> holding \<^verbatim>\<open>L\<close> it is
  \<^verbatim>\<open>G.components + H.components + L.components + [L.handler]\<close>. This holds with
  every routing table: the rules added bind a beginning of the expected lists
  when the table refuses a rule, all of them when the registration raises
  nothing, and it raises nothing when the table accepts every rule. The trees
  have a list of children in every group, and their component lists are list
  objects of the state.
\<close>

theorem add_routes_decorator_lists:
  assumes "list_all (\<lambda>r. routes_present r \<and> allocated st r) ts"
  shows "(\<exists>rest. map (chain_of (heap st)) (concat (map leaf_paths ts)) =
            map (\<lambda>r. heap (snd (add_routes tbl (Some ts) None [] [] st)) (partial_decorators (rule_view r)))
                (new_rules st (snd (add_routes tbl (Some ts) None [] [] st))) @ rest) \<and>
         (fst (add_routes tbl (Some ts) None [] [] st) = None \<longrightarrow>
            map (\<lambda>r. heap (snd (add_routes tbl (Some ts) None [] [] st)) (partial_decorators (rule_view r)))
                (new_rules st (snd (add_routes tbl (Some ts) None [] [] st))) =
            map (chain_of (heap st)) (concat (map leaf_paths ts))) \<and>
         ((\<forall>rs r. tbl rs r = None) \<longrightarrow> fst (add_routes tbl (Some ts) None [] [] st) = None)"
proof -
  let ?res = "add_routes tbl (Some ts) None [] [] st"
  let ?st' = "snd ?res"
  let ?proj = "\<lambda>b::binding. fst (snd (snd b))"
  let ?bs = "concat (map (flatten_spec (heap st) [] [] []) ts)"
  have al: "list_all (allocated st) ts" and pr: "list_all routes_present ts"
    using assms by (auto simp: list_all_iff)
  have reg: "registers ?res st ?bs"
    using add_routes_registers(1) [of st "Some ts" None tbl "[]" "[]"] al
    by (simp del: add_routes.simps)
  have lists: "map (\<lambda>r. heap ?st' (partial_decorators (rule_view r))) (new_rules st ?st') =
        map ?proj (map (binding_of ?st') (new_rules st ?st'))"
    by (simp add: binding_of_def del: add_routes.simps)
  have "map ?proj ?bs = concat (map (map ?proj \<circ> flatten_spec (heap st) [] [] []) ts)"
    by (simp only: map_concat map_map)
  also have "\<dots> = concat (map (map (chain_of (heap st)) \<circ> leaf_paths) ts)"
    by (simp add: flatten_spec_chains comp_def)
  also have "\<dots> = map (chain_of (heap st)) (concat (map leaf_paths ts))"
    by (simp add: map_concat)
  finally have exp: "map ?proj ?bs = map (chain_of (heap st)) (concat (map leaf_paths ts))" .
  from reg obtain rest where rest: "?bs = map (binding_of ?st') (new_rules st ?st') @ rest"
    unfolding registers_def by blast
  have "map ?proj ?bs = map ?proj (map (binding_of ?st') (new_rules st ?st')) @ map ?proj rest"
    by (subst rest) (simp only: map_append)
  then have one: "\<exists>rest. map (chain_of (heap st)) (concat (map leaf_paths ts)) =
      map (\<lambda>r. heap ?st' (partial_decorators (rule_view r))) (new_rules st ?st') @ rest"
    unfolding exp lists by blast
  have two: "fst ?res = None \<longrightarrow>
      map (\<lambda>r. heap ?st' (partial_decorators (rule_view r))) (new_rules st ?st') =
      map (chain_of (heap st)) (concat (map leaf_paths ts))"
  proof
    assume "fst ?res = None"
    with reg have "map (binding_of ?st') (new_rules st ?st') = ?bs"
      unfolding registers_def by blast
    then show "map (\<lambda>r. heap ?st' (partial_decorators (rule_view r))) (new_rules st ?st') =
      map (chain_of (heap st)) (concat (map leaf_paths ts))"
      unfolding lists exp [symmetric] by (simp only:)
  qed
  have three: "(\<forall>rs r. tbl rs r = None) \<longrightarrow> fst ?res = None"
    using add_routes_accepted(1) [OF _ refl pr] by blast
  from one two three show ?thesis by blast
qed

lemma nested_example_first:
  "fst (add_routes flask (Some [snd nested_example]) None [] [] (fst nested_example)) = None \<and>
   map (binding_of (snd (add_routes flask (Some [snd nested_example]) None [] [] (fst nested_example))))
       (new_rules (fst nested_example)
          (snd (add_routes flask (Some [snd nested_example]) None [] [] (fst nested_example)))) =
   [(''/g/h/<id>'', Some ''test'', [A, B, Component, JSONAPIHandler], [''GET''])]"
  by (simp add: nested_example_def init_state_def or_empty_def new_list_def list_add_def
      add_url_rule_def flask_def Let_def or_None_def new_rules_def binding_of_def)

theorem add_routes_decorator_lists_witness:
  "list_all (\<lambda>r. routes_present r \<and> allocated (fst nested_example) r) [snd nested_example] \<and>
   fst (add_routes flask (Some [snd nested_example]) None [] [] (fst nested_example)) = None \<and>
   map (\<lambda>r. heap (snd (add_routes flask (Some [snd nested_example]) None [] [] (fst nested_example)))
              (partial_decorators (rule_view r)))
       (new_rules (fst nested_example)
          (snd (add_routes flask (Some [snd nested_example]) None [] [] (fst nested_example)))) =
   [[A] @ [B] @ [Component] @ [JSONAPIHandler]] \<and>
   (\<forall>rs r. (\<lambda>rs r. None :: error option) (rs :: rule list) (r :: rule) = None) \<and>
   fst (add_routes (\<lambda>rs r. None) (Some [snd nested_example]) None [] [] (fst nested_example)) = None"
proof -
  have h: "list_all (\<lambda>r. routes_present r \<and> allocated (fst nested_example) r) [snd nested_example]"
    by (simp add: nested_example_def allocated_def new_list_def init_state_def)
  have c: "map (chain_of (heap (fst nested_example))) (concat (map leaf_paths [snd nested_example])) =
           [[A] @ [B] @ [Component] @ [JSONAPIHandler]]"
    by (simp add: nested_example_def chain_of_def new_list_def init_state_def)
  have f: "fst (add_routes flask (Some [snd nested_example]) None [] [] (fst nested_example)) = None"
    using nested_example_first by blast
  note t1 = add_routes_decorator_lists [OF h, of flask]
  note t2 = add_routes_decorator_lists [OF h, of "\<lambda>rs r. None"]
  from t1 f c have "map (\<lambda>r. heap (snd (add_routes flask (Some [snd nested_example]) None [] [] (fst nested_example)))
              (partial_decorators (rule_view r)))
       (new_rules (fst nested_example)
          (snd (add_routes flask (Some [snd nested_example]) None [] [] (fst nested_example)))) =
   [[A] @ [B] @ [Component] @ [JSONAPIHandler]]"
    by (simp del: add_routes.simps)
  moreover from t2 have "fst (add_routes (\<lambda>rs r. None) (Some [snd nested_example]) None [] [] (fst nested_example)) = None"
    by (simp del: add_routes.simps)
  ultimately show ?thesis using h f by (simp del: add_routes.simps)
qed





lemma add_route_Route_closure:
  "fst (add_route tbl (Route rp fn h m rn rc) c p n st) = None \<Longrightarrow>
   \<exists>st1. snd (add_route tbl (Route rp fn h m rn rc) c p n st) = st1 \<and>
     rules st1 \<noteq> [] \<and>
     rule_name (last (rules st1)) = or_None (n @ rn) \<and>
     partial_fn (rule_view (last (rules st1))) = fn \<and>
     heap st1 (partial_decorators (rule_view (last (rules st1)))) = (heap st c @ heap st rc) @ [h]"
  by (auto simp: list_add_def new_list_def add_url_rule_def Let_def split: option.splits)

text \<open>
  Claim C2 as stated fails for a route whose path has a variable named
  \<^verbatim>\<open>decorators\<close>. The keyword of the request replaces the list that the closure
  has bound: the call raises AttributeError and the list of the closure keeps
  its elements.
\<close>

theorem registered_closure_single_use_counterexample:
  "list_all is_component (heap (fst variable_example) 0 @ heap (fst variable_example) 1) \<and>
   fst (add_route flask (snd variable_example) 0 [] [] (fst variable_example)) = None \<and>
   heap (snd (add_route flask (snd variable_example) 0 [] [] (fst variable_example)))
     (partial_decorators (rule_view (last (rules
        (snd (add_route flask (snd variable_example) 0 [] [] (fst variable_example))))))) =
     [A, B, JSONAPIHandler] \<and>
   call_partial
     (rule_view (last (rules (snd (add_route flask (snd variable_example) 0 [] [] (fst variable_example))))))
     [(''decorators'', ''1'')]
     (snd (add_route flask (snd variable_example) 0 [] [] (fst variable_example))) =
   (Inl AttributeError, snd (add_route flask (snd variable_example) 0 [] [] (fst variable_example)))"
proof -
  have c: "list_all is_component (heap (fst variable_example) 0 @ heap (fst variable_example) 1)"
    by (simp add: variable_example_def new_list_def init_state_def A_def B_def)
  have r: "fst (add_route flask (snd variable_example) 0 [] [] (fst variable_example)) = None"
    "heap (snd (add_route flask (snd variable_example) 0 [] [] (fst variable_example)))
     (partial_decorators (rule_view (last (rules
        (snd (add_route flask (snd variable_example) 0 [] [] (fst variable_example))))))) =
     [A, B, JSONAPIHandler]"
    by (simp_all add: variable_example_def new_list_def init_state_def list_add_def add_url_rule_def
        flask_def or_None_def Let_def)
  have "call_partial v [(''decorators'', ''1'')] st = (Inl AttributeError, st)" for v st
    by (simp add: call_partial_def)
  with c r show ?thesis by (simp del: add_route.simps)
qed

text \<open>
  Claim C2, amended. The closure that \<open>add_route\<close> registers for a leaf holds
  one list object. Let the variables of the path, which are the keyword
  arguments of a request, not be named \<^verbatim>\<open>fn\<close> or \<^verbatim>\<open>decorators\<close>, and let the route
  be well formed: its components are component classes, its handler is a
  handler class and the table has accepted the rule. In every later state in
  which that list still has the elements it was registered with, a call of the
  closure returns what the controller returns on the chain of objects and
  leaves the list empty; a second call of the same closure raises IndexError,
  the \<^verbatim>\<open>pop\<close> from the empty list.
\<close>

theorem registered_closure_single_use:
  assumes "list_all is_component (heap st c @ heap st rc)"
    and "fst (add_route tbl (Route rp fn (HandlerClass hn hm) m rn rc) c p n st) = None"
    and "''fn'' \<notin> set (map fst kw)" and "''decorators'' \<notin> set (map fst kw)"
    and "''decorators'' \<notin> set (map fst kw')"
  shows "\<exists>v st1 h.
           st1 = snd (add_route tbl (Route rp fn (HandlerClass hn hm) m rn rc) c p n st) \<and>
           v = rule_view (last (rules st1)) \<and>
           nested_call (heap st c @ heap st rc) (instantiate0 (HandlerClass hn hm)) = Inr h \<and>
           (\<forall>st'. heap st' (partial_decorators v) = heap st1 (partial_decorators v) \<longrightarrow>
              (\<exists>st2. call_partial v kw st' = (snd (fn h kw), st2) \<and>
                     heap st2 (partial_decorators v) = [] \<and>
                     call_partial v kw' st2 = (Inl IndexError, st2)))"
proof -
  let ?st1 = "snd (add_route tbl (Route rp fn (HandlerClass hn hm) m rn rc) c p n st)"
  let ?v = "rule_view (last (rules ?st1))"
  let ?a = "partial_decorators ?v"
  have v: "partial_fn ?v = fn" "heap ?st1 ?a = (heap st c @ heap st rc) @ [HandlerClass hn hm]"
    using add_route_Route_closure [OF assms(2)]
    by (simp_all del: add_route.simps)
  from nested_call_components [OF assms(1)]
  obtain h where h: "nested_call (heap st c @ heap st rc) (instantiate0 (HandlerClass hn hm)) = Inr h"
    by auto
  have "\<exists>st2. call_partial ?v kw st' = (snd (fn h kw), st2) \<and> heap st2 ?a = [] \<and>
          call_partial ?v kw' st2 = (Inl IndexError, st2)"
    if same: "heap st' ?a = heap ?st1 ?a" for st'
  proof -
    let ?st2 = "st'\<lparr>heap := (heap st')(?a := []), stdout := stdout st' @ fst (fn h kw)\<rparr>"
    have l: "heap st' ?a = (heap st c @ heap st rc) @ [HandlerClass hn hm]"
      using same v(2) by simp
    have first: "call_partial ?v kw st' = (snd (fn h kw), ?st2)"
      using dispatch_request_success [OF l h, of fn kw] v(1) assms(3,4)
      by (simp add: call_partial_def del: add_route.simps)
    have e: "heap ?st2 ?a = []" by (simp del: add_route.simps)
    have second: "call_partial ?v kw' ?st2 = (Inl IndexError, ?st2)"
      using dispatch_request_empty [OF e] assms(5)
      by (simp add: call_partial_def del: add_route.simps)
    from first e second show ?thesis by blast
  qed
  with h show ?thesis by blast
qed

theorem registered_closure_single_use_witness:
  "list_all is_component (heap (fst single_example) 0 @ heap (fst single_example) 1) \<and>
   fst (add_route flask (snd single_example) 0 ''/users'' [] (fst single_example)) = None \<and>
   ''fn'' \<notin> set (map fst [(''id'', ''1'')]) \<and> ''decorators'' \<notin> set (map fst [(''id'', ''1'')]) \<and>
   ''decorators'' \<notin> set (map fst [(''id'', ''2'')]) \<and>
   (\<exists>st2. call_partial (rule_view (last (rules (snd (add_route flask (snd single_example) 0 ''/users'' [] (fst single_example))))))
            [(''id'', ''1'')] (snd (add_route flask (snd single_example) 0 ''/users'' [] (fst single_example))) =
            (Inr (PStr ''hello, world!''), st2) \<and>
          fst (call_partial (rule_view (last (rules (snd (add_route flask (snd single_example) 0 ''/users'' [] (fst single_example))))))
            [(''id'', ''2'')] st2) = Inl IndexError)"
proof -
  let ?st = "fst single_example"
  let ?hm = "[(''test'', \<lambda>uri_args. Inr (PDict [(''hello'', PStr ''world'')]))]"
  have r: "snd single_example = Route ''/<id>'' controller (HandlerClass ''JSONAPIHandler'' ?hm) ''GET'' ''test'' 1"
    by (simp add: single_example_def)
  have hp: "heap ?st 0 @ heap ?st 1 = [A, B]"
    by (simp add: single_example_def new_list_def init_state_def)
  have h: "list_all is_component (heap ?st 0 @ heap ?st 1)"
    unfolding hp by (simp add: A_def B_def)
  have ok: "fst (add_route flask (snd single_example) 0 ''/users'' [] ?st) = None"
    by (simp add: single_example_def new_list_def init_state_def list_add_def add_url_rule_def
        flask_def or_None_def Let_def)
  have k1: "''fn'' \<notin> set (map fst [(''id'', ''1'')])" by simp
  have k2: "''decorators'' \<notin> set (map fst [(''id'', ''1'')])" by simp
  have k3: "''decorators'' \<notin> set (map fst [(''id'', ''2'')])" by simp
  let ?st1 = "snd (add_route flask (snd single_example) 0 ''/users'' [] ?st)"
  let ?v = "rule_view (last (rules ?st1))"
  from registered_closure_single_use [OF h ok [unfolded r] k1 k2 k3]
  obtain x where n: "nested_call (heap ?st 0 @ heap ?st 1) (instantiate0 (HandlerClass ''JSONAPIHandler'' ?hm)) = Inr x"
    and a: "\<forall>st'. heap st' (partial_decorators ?v) = heap ?st1 (partial_decorators ?v) \<longrightarrow>
              (\<exists>st2. call_partial ?v [(''id'', ''1'')] st' = (snd (controller x [(''id'', ''1'')]), st2) \<and>
                     heap st2 (partial_decorators ?v) = [] \<and>
                     call_partial ?v [(''id'', ''2'')] st2 = (Inl IndexError, st2))"
    unfolding r by blast
  from a obtain st2 where c1: "call_partial ?v [(''id'', ''1'')] ?st1 = (snd (controller x [(''id'', ''1'')]), st2)"
    and c2: "call_partial ?v [(''id'', ''2'')] st2 = (Inl IndexError, st2)"
    by blast
  from n have "snd (controller x [(''id'', ''1'')]) = Inr (PStr ''hello, world!'')"
    unfolding hp by (auto simp: A_def B_def controller_def call_method_def)
  with c1 c2 h ok show ?thesis by (auto simp del: add_route.simps)
qed

section \<open>The script\<close>

text \<open>
  Claim C3. The script registers one rule, \<^verbatim>\<open>/users/<id>\<close> named \<^verbatim>\<open>test\<close> for
  \<^verbatim>\<open>GET\<close>, with the list \<^verbatim>\<open>[A, B, JSONAPIHandler]\<close>. The request for \<^verbatim>\<open>/users/1\<close>
  calls the controller on \<^verbatim>\<open>A(B(JSONAPIHandler()))\<close>, whose \<^verbatim>\<open>test()\<close> returns
  \<^verbatim>\<open>{'hello': 'world', 'B': True, 'A': True}\<close>; the controller prints that
  dictionary and returns \<^verbatim>\<open>'hello, world!'\<close>.
\<close>

theorem reference_scenario:
  "fst registered = None \<and>
   map (binding_of (snd registered)) (rules (snd registered)) =
     [(''/users/<id>'', Some ''test'', [A, B, JSONAPIHandler], [''GET''])] \<and>
   (\<exists>h0 hb ha st'.
      instantiate0 JSONAPIHandler = Inr h0 \<and> instantiate1 B h0 = Inr hb \<and> instantiate1 A hb = Inr ha \<and>
      call_method ha ''test'' [] =
        Inr (PDict [(''hello'', PStr ''world''), (''B'', PBool True), (''A'', PBool True)]) \<and>
      serve ''/users/<id>'' [(''id'', ''1'')] (snd registered) =
        Some (snd (controller ha [(''id'', ''1'')]), st') \<and>
      controller ha [(''id'', ''1'')] =
        ([PDict [(''hello'', PStr ''world''), (''B'', PBool True), (''A'', PBool True)]],
         Inr (PStr ''hello, world!'')) \<and>
      stdout st' = [PDict [(''hello'', PStr ''world''), (''B'', PBool True), (''A'', PBool True)]])"
proof -
  let ?st = "snd registered"
  have reg: "fst registered = None" "stdout ?st = []"
    "rules ?st = [\<lparr>rule_path = ''/users/<id>'', rule_name = Some ''test'',
                   rule_view = \<lparr>partial_fn = controller, partial_decorators = 6\<rparr>,
                   rule_methods = [''GET'']\<rparr>]"
    "heap ?st 6 = [A, B] @ [JSONAPIHandler]"
    by (simp_all add: registered_def routes_def new_list_def JSONAPIRoute_def Route_init_def or_empty_def
        Include_init_def list_add_def add_url_rule_def flask_def Let_def init_state_def or_None_def)
  obtain h0 hb ha where o: "instantiate0 JSONAPIHandler = Inr h0" "instantiate1 B h0 = Inr hb"
    "instantiate1 A hb = Inr ha"
    by (simp add: JSONAPIHandler_def A_def B_def)
  then have n: "nested_call [A, B] (instantiate0 JSONAPIHandler) = Inr ha" by simp
  have t: "call_method ha ''test'' [] =
        Inr (PDict [(''hello'', PStr ''world''), (''B'', PBool True), (''A'', PBool True)])"
    using o by (auto simp: JSONAPIHandler_def A_def B_def call_method_def)
  then have c: "controller ha [(''id'', ''1'')] =
        ([PDict [(''hello'', PStr ''world''), (''B'', PBool True), (''A'', PBool True)]],
         Inr (PStr ''hello, world!''))"
    by (simp add: controller_def)
  have s: "serve ''/users/<id>'' [(''id'', ''1'')] ?st =
      Some (snd (controller ha [(''id'', ''1'')]),
            ?st\<lparr>heap := (heap ?st)(6 := []), stdout := stdout ?st @ fst (controller ha [(''id'', ''1'')])\<rparr>)"
    using dispatch_request_success [OF reg(4) n, of controller "[(''id'', ''1'')]"]
    by (simp add: serve_def reg(3) call_partial_def)
  have b: "map (binding_of ?st) (rules ?st) =
     [(''/users/<id>'', Some ''test'', [A, B, JSONAPIHandler], [''GET''])]"
    by (simp add: reg(3) binding_of_def reg(4))
  show ?thesis
    using reg(1) b o t s c reg(2) by (intro conjI exI) (assumption | simp)+
qed

end
